theory Spec2Isabelle
  imports Main "HOL-Library.Sublist"
begin

section \<open>Python strings\<close>

text \<open>
  A Python \<^verbatim>\<open>str\<close> is a sequence of Unicode code points, so a string of the program is
  a list of code points (natural numbers), not a list of bytes.  \<open>py ''abc''\<close> is the Python
  literal \<^verbatim>\<open>'abc'\<close>: every character of an Isabelle literal is read as the code point
  with the same number.
\<close>

type_synonym codepoint = nat
type_synonym pystr = "codepoint list"

definition py :: "string \<Rightarrow> pystr" where
  "py s = map (of_char :: char \<Rightarrow> nat) s"

abbreviation NL :: codepoint where "NL \<equiv> 10"
abbreviation HASH :: codepoint where "HASH \<equiv> 35"
abbreviation LPAR :: codepoint where "LPAR \<equiv> 40"
abbreviation RPAR :: codepoint where "RPAR \<equiv> 41"
abbreviation HYPHEN :: codepoint where "HYPHEN \<equiv> 45"
abbreviation SLASH :: codepoint where "SLASH \<equiv> 47"
abbreviation QUOTE :: codepoint where "QUOTE \<equiv> 39"
abbreviation BACKTICK :: codepoint where "BACKTICK \<equiv> 96"
abbreviation LBRACKET :: codepoint where "LBRACKET \<equiv> 91"
abbreviation RBRACKET :: codepoint where "RBRACKET \<equiv> 93"

text \<open>
  \<^verbatim>\<open>str.isspace\<close> of one code point.  The same table decides \<^verbatim>\<open>\s\<close> in a
  \<^verbatim>\<open>re\<close> pattern over \<^verbatim>\<open>str\<close> and what \<^verbatim>\<open>str.strip()\<close> removes: the
  characters U+0009..U+000D, U+001C..U+0020, U+0085, U+00A0, U+1680, U+2000..U+200A, U+2028,
  U+2029, U+202F, U+205F and U+3000.
\<close>

definition isspace :: "codepoint \<Rightarrow> bool" where
  "isspace c \<longleftrightarrow>
     (9 \<le> c \<and> c \<le> 13) \<or> (28 \<le> c \<and> c \<le> 32) \<or> c = 133 \<or> c = 160 \<or> c = 5760 \<or>
     (8192 \<le> c \<and> c \<le> 8202) \<or> c = 8232 \<or> c = 8233 \<or> c = 8239 \<or> c = 8287 \<or> c = 12288"

text \<open>\<^verbatim>\<open>s.startswith(p)\<close> and \<^verbatim>\<open>s.endswith(p)\<close>.\<close>

fun startswith :: "pystr \<Rightarrow> pystr \<Rightarrow> bool" where
  "startswith s [] = True"
| "startswith [] (p # ps) = False"
| "startswith (c # cs) (p # ps) = (c = p \<and> startswith cs ps)"

definition endswith :: "pystr \<Rightarrow> pystr \<Rightarrow> bool" where
  "endswith s p = startswith (rev s) (rev p)"

text \<open>\<^verbatim>\<open>sub in s\<close>: \<open>sub\<close> occurs in \<open>s\<close> as a contiguous substring.\<close>

fun contains :: "pystr \<Rightarrow> pystr \<Rightarrow> bool" where
  "contains [] sub = (sub = [])"
| "contains (c # cs) sub = (startswith (c # cs) sub \<or> contains cs sub)"

text \<open>
  \<^verbatim>\<open>s.lstrip\<close>, \<^verbatim>\<open>s.rstrip\<close> and \<^verbatim>\<open>s.strip\<close> remove the longest prefix
  (suffix, both) of characters of a set; with no argument the set is the whitespace.
\<close>

definition lstrip_by :: "(codepoint \<Rightarrow> bool) \<Rightarrow> pystr \<Rightarrow> pystr" where
  "lstrip_by P s = dropWhile P s"

definition rstrip_by :: "(codepoint \<Rightarrow> bool) \<Rightarrow> pystr \<Rightarrow> pystr" where
  "rstrip_by P s = rev (dropWhile P (rev s))"

definition strip_by :: "(codepoint \<Rightarrow> bool) \<Rightarrow> pystr \<Rightarrow> pystr" where
  "strip_by P s = rstrip_by P (lstrip_by P s)"

definition strip :: "pystr \<Rightarrow> pystr" where
  "strip s = strip_by isspace s"

definition rstrip :: "pystr \<Rightarrow> pystr" where
  "rstrip s = rstrip_by isspace s"

text \<open>
  \<^verbatim>\<open>str.lower()\<close>.  On the ASCII range it maps \<open>A..Z\<close> to \<open>a..z\<close> and nothing else.
  Beyond ASCII the result is given by the Unicode character database, which is not part of
  the program: it is the parameter \<open>ext\<close>, which receives the text before the code point,
  the code point and the text after it (the lowering of a capital sigma depends on its
  neighbours) and returns the code points that replace it (one code point can lower to
  several).  Nothing is assumed about \<open>ext\<close>.
\<close>

type_synonym lowering = "pystr \<Rightarrow> codepoint \<Rightarrow> pystr \<Rightarrow> pystr"

definition ascii_lower :: "codepoint \<Rightarrow> codepoint" where
  "ascii_lower c = (if 65 \<le> c \<and> c \<le> 90 then c + 32 else c)"

fun lower_from :: "lowering \<Rightarrow> pystr \<Rightarrow> pystr \<Rightarrow> pystr" where
  "lower_from ext pre [] = []"
| "lower_from ext pre (c # cs) =
     (if c < 128 then [ascii_lower c] else ext pre c cs) @ lower_from ext (pre @ [c]) cs"

definition lower :: "lowering \<Rightarrow> pystr \<Rightarrow> pystr" where
  "lower ext s = lower_from ext [] s"

section \<open>Regular-expression substitution\<close>

text \<open>
  \<^verbatim>\<open>re.sub(pattern, repl, s)\<close> replaces the leftmost non-overlapping matches.  The
  program uses two shapes of pattern.  For a character class \<open>[...]\<close> every matching
  character is one match.  For a repeated class \<open>[...]+\<close> a match starts at the first
  matching character and, being greedy, takes the whole run that follows.
\<close>

fun re_sub_class :: "(codepoint \<Rightarrow> bool) \<Rightarrow> pystr \<Rightarrow> pystr \<Rightarrow> pystr" where
  "re_sub_class P repl [] = []"
| "re_sub_class P repl (c # cs) =
     (if P c then repl @ re_sub_class P repl cs else c # re_sub_class P repl cs)"

function re_sub_plus :: "(codepoint \<Rightarrow> bool) \<Rightarrow> pystr \<Rightarrow> pystr \<Rightarrow> pystr" where
  "re_sub_plus P repl [] = []"
| "re_sub_plus P repl (c # cs) =
     (if P c then repl @ re_sub_plus P repl (dropWhile P cs) else c # re_sub_plus P repl cs)"
  by pat_completeness auto
termination
  by (relation "measure (\<lambda>(P, repl, s). length s)")
     (auto simp: length_dropWhile_le less_Suc_eq_le)

section \<open>The anchor of a heading\<close>

text \<open>The characters that \<^verbatim>\<open>[^a-z0-9\s-]\<close> does not match.\<close>

definition anchor_char :: "codepoint \<Rightarrow> bool" where
  "anchor_char c \<longleftrightarrow> (97 \<le> c \<and> c \<le> 122) \<or> (48 \<le> c \<and> c \<le> 57) \<or> isspace c \<or> c = HYPHEN"

definition generate_github_anchor :: "lowering \<Rightarrow> pystr \<Rightarrow> pystr" where
  "generate_github_anchor ext heading =
     (let anchor = lower ext heading;
          anchor = re_sub_class (\<lambda>c. \<not> anchor_char c) [] anchor;
          anchor = re_sub_plus isspace [HYPHEN] anchor;
          anchor = re_sub_plus (\<lambda>c. c = HYPHEN) [HYPHEN] anchor;
          anchor = strip_by (\<lambda>c. c = HYPHEN) anchor
      in anchor)"

section \<open>Files\<close>

text \<open>
  The program reads files with \<^verbatim>\<open>open(path, 'r', encoding='utf-8')\<close>.  What that gives
  for a path is one of two things.  \<open>Readable t\<close>: the file opens and decodes, and \<open>t\<close> is
  its text as Python delivers it (decoded, line ends translated to \<open>\n\<close>).  \<open>Broken ls\<close>:
  \<^verbatim>\<open>open\<close> or a later read raises an exception; \<open>ls\<close> are the lines that the iteration
  \<^verbatim>\<open>for line in f\<close> has delivered before the exception (none when \<^verbatim>\<open>open\<close> itself
  raises: a missing file, a directory, no permission; some when the decoder meets an invalid
  byte in a later block of the file).  \<^verbatim>\<open>f.read()\<close> on a broken file raises before it
  returns anything.
\<close>

datatype file_read = Readable pystr | Broken "pystr list"

text \<open>
  The exceptions that leave \<^verbatim>\<open>Path.exists()\<close>.  It answers \<open>False\<close> for a path that is
  not there, and it raises for every other failure of the underlying \<^verbatim>\<open>stat\<close>: no
  permission to search a directory on the way, a name that is too long.  The program calls
  it outside any \<^verbatim>\<open>try\<close>, so such an exception leaves \<^verbatim>\<open>validate_link\<close> and
  \<^verbatim>\<open>main\<close>.
\<close>

datatype error = PermissionError | OSError

text \<open>
  The environment of a run: the Unicode lowering beyond ASCII, and the file system as seen
  through \<^verbatim>\<open>open\<close> and through \<^verbatim>\<open>Path.exists()\<close>, which returns a boolean
  (\<open>Inr\<close>) or raises (\<open>Inl\<close>).  The program only reads it.
\<close>

record env =
  lower_ext :: lowering
  open_file :: "pystr \<Rightarrow> file_read"
  path_exists :: "pystr \<Rightarrow> error + bool"

text \<open>
  The lines that \<^verbatim>\<open>for line in f\<close> delivers from a text: each line keeps its \<open>\n\<close>;
  a last line without \<open>\n\<close> is delivered as it is.
\<close>

fun readlines :: "pystr \<Rightarrow> pystr list" where
  "readlines [] = []"
| "readlines (c # cs) =
     (if c = NL then [c] # readlines cs
      else (case readlines cs of [] \<Rightarrow> [[c]] | l # ls \<Rightarrow> (c # l) # ls))"

fun iter_lines :: "file_read \<Rightarrow> pystr list" where
  "iter_lines (Readable t) = readlines t"
| "iter_lines (Broken ls) = ls"

text \<open>\<^verbatim>\<open>s.split(sep)\<close> for a separator of one character: the pieces between its
  occurrences; never the empty list.  \<open>split_nl\<close> is \<^verbatim>\<open>content.split('\n')\<close>.\<close>

fun split_by :: "codepoint \<Rightarrow> pystr \<Rightarrow> pystr list" where
  "split_by sep [] = [[]]"
| "split_by sep (c # cs) =
     (if c = sep then [] # split_by sep cs
      else (case split_by sep cs of [] \<Rightarrow> [[c]] | l # ls \<Rightarrow> (c # l) # ls))"

definition split_nl :: "pystr \<Rightarrow> pystr list" where
  "split_nl content = split_by NL content"

text \<open>
  \<^verbatim>\<open>str(Path('blueprint') / part)\<close>, by the rules of \<^verbatim>\<open>pathlib\<close> for POSIX paths.  A
  path is cut at the \<open>/\<close>; empty components and \<open>.\<close> are dropped, \<open>..\<close> is kept.  A part
  that begins with \<open>/\<close> is absolute and replaces \<open>blueprint\<close> altogether (its root is \<open>//\<close>
  when it begins with exactly two \<open>/\<close>); any other part is appended to \<open>blueprint\<close>.
\<close>

definition path_components :: "pystr \<Rightarrow> pystr list" where
  "path_components part = filter (\<lambda>c. c \<noteq> [] \<and> c \<noteq> py ''.'') (split_by SLASH part)"

fun join_slash :: "pystr list \<Rightarrow> pystr" where
  "join_slash [] = []"
| "join_slash [c] = c"
| "join_slash (c # d # cs) = c @ [SLASH] @ join_slash (d # cs)"

definition blueprint_path :: "pystr \<Rightarrow> pystr" where
  "blueprint_path part =
     (if startswith part [SLASH] then
        (if startswith part [SLASH, SLASH] \<and> \<not> startswith part [SLASH, SLASH, SLASH]
         then [SLASH, SLASH] else [SLASH]) @ join_slash (path_components part)
      else join_slash (py ''blueprint'' # path_components part))"

section \<open>Headings and anchors of a file\<close>

text \<open>
  \<^verbatim>\<open>re.sub(r'^#+\s*', '', s)\<close>: \<open>^\<close> matches at the start of the string only, so at most
  one match is replaced: the run of \<open>#\<close> at the start and the run of whitespace after it.
\<close>

definition strip_heading_marker :: "pystr \<Rightarrow> pystr" where
  "strip_heading_marker s =
     (if startswith s [HASH] then dropWhile isspace (dropWhile (\<lambda>c. c = HASH) s) else s)"

text \<open>
  The loop of \<^verbatim>\<open>extract_headings\<close> over the delivered lines; \<open>headings\<close> is the list built
  so far.  An exception of the read ends the loop and the function returns the list as it
  stands, after printing a message (console output is not modelled).
\<close>

fun scan_headings :: "pystr list \<Rightarrow> pystr list \<Rightarrow> pystr list" where
  "scan_headings headings [] = headings"
| "scan_headings headings (line # rest) =
     (if startswith (strip line) [HASH] then
        (let heading = strip_heading_marker (strip line);
             heading = rstrip heading
         in if heading \<noteq> [] then scan_headings (headings @ [heading]) rest
            else scan_headings headings rest)
      else scan_headings headings rest)"

definition extract_headings :: "env \<Rightarrow> pystr \<Rightarrow> pystr list" where
  "extract_headings e file_path = scan_headings [] (iter_lines (open_file e file_path))"

fun anchor_among :: "lowering \<Rightarrow> pystr list \<Rightarrow> pystr \<Rightarrow> bool" where
  "anchor_among ext [] anchor = False"
| "anchor_among ext (heading # rest) anchor =
     (if generate_github_anchor ext heading = anchor then True
      else anchor_among ext rest anchor)"

definition anchor_exists :: "env \<Rightarrow> pystr \<Rightarrow> pystr \<Rightarrow> bool" where
  "anchor_exists e file_path anchor =
     anchor_among (lower_ext e) (extract_headings e file_path) anchor"

section \<open>Validating one link\<close>

text \<open>The dictionary that \<^verbatim>\<open>validate_link\<close> returns, with its keys \<open>file\<close>, \<open>line\<close>,
  \<open>text\<close>, \<open>link\<close>, \<open>status\<close> and \<open>suggestion\<close>.\<close>

record validation_result =
  v_file :: pystr
  v_line :: nat
  v_text :: pystr
  v_link :: pystr
  v_status :: pystr
  v_suggestion :: pystr

text \<open>\<^verbatim>\<open>s.split(sep, 1)\<close> for a separator that occurs in \<open>s\<close>: the text before its first
  occurrence and the text after it.\<close>

definition split_first :: "codepoint \<Rightarrow> pystr \<Rightarrow> pystr \<times> pystr" where
  "split_first sep s =
     (takeWhile (\<lambda>c. c \<noteq> sep) s, drop 1 (dropWhile (\<lambda>c. c \<noteq> sep) s))"

text \<open>The file part and the anchor part of a relative link, as \<^verbatim>\<open>validate_link\<close> cuts them.\<close>

definition link_parts :: "pystr \<Rightarrow> pystr \<times> pystr" where
  "link_parts link_target =
     (let (file_part, anchor_part) =
            (if contains link_target [HASH] then split_first HASH link_target
             else (link_target, []));
          file_part = (if startswith file_part (py ''./'') then drop 2 file_part else file_part)
      in (file_part, anchor_part))"

definition image_suffixes :: "pystr list" where
  "image_suffixes = [py ''.svg'', py ''.png'', py ''.jpg'', py ''.jpeg'', py ''.gif'', py ''.webp'']"

definition anchor_message :: "pystr \<Rightarrow> pystr \<Rightarrow> pystr" where
  "anchor_message anchor place =
     py ''Anchor '' @ [QUOTE, HASH] @ anchor @ [QUOTE] @ py '' not found in '' @ place @
     py ''. Check heading exists and anchor format.''"

text \<open>
  \<^verbatim>\<open>validate_link\<close> returns its dictionary (\<open>Inr\<close>) or is left by an exception of
  \<^verbatim>\<open>Path.exists()\<close> (\<open>Inl\<close>).  Reading a file cannot make it raise: \<^verbatim>\<open>extract_headings\<close>
  catches every exception of the read.
\<close>

definition validate_link ::
  "env \<Rightarrow> pystr \<Rightarrow> nat \<Rightarrow> pystr \<Rightarrow> pystr \<Rightarrow> error + validation_result" where
  "validate_link e source_file line_num link_text link_target =
     (let outcome =
        (if startswith link_target (py ''http://'') \<or> startswith link_target (py ''https://'')
         then Inr (py ''valid'', [])
         else if startswith link_target [HASH] then
           (let anchor = drop 1 link_target
            in if anchor_exists e source_file anchor then Inr (py ''valid'', [])
               else Inr (py ''missing-anchor'', anchor_message anchor source_file))
         else if startswith link_target (py ''./'') \<or>
                 (\<not> contains link_target [SLASH] \<or> count_list link_target SLASH = 1) then
           (let (file_part, anchor_part) = link_parts link_target;
                full_file_path = blueprint_path file_part
            in case path_exists e full_file_path of
                 Inl err \<Rightarrow> Inl err
               | Inr True \<Rightarrow>
                   (if anchor_part \<noteq> [] then
                      (if anchor_exists e full_file_path anchor_part then Inr (py ''valid'', [])
                       else Inr (py ''missing-anchor'',
                                 anchor_message anchor_part full_file_path))
                    else Inr (py ''valid'', []))
               | Inr False \<Rightarrow>
                   (if list_ex (endswith file_part) image_suffixes then Inr (py ''valid'', [])
                    else Inr (py ''invalid'',
                              py ''File '' @ [QUOTE] @ file_part @ [QUOTE] @
                              py '' does not exist in blueprint/ directory.'')))
         else Inr (py ''invalid'',
                   py ''Link format not supported. Use relative links (./file.md) for local files.''))
      in case outcome of
           Inl err \<Rightarrow> Inl err
         | Inr (st, sg) \<Rightarrow>
             Inr \<lparr>v_file = source_file, v_line = line_num, v_text = link_text,
                  v_link = link_target, v_status = st, v_suggestion = sg\<rparr>)"

text \<open>The status and the suggestion of a call, when it returns.\<close>

definition returned_status :: "error + validation_result \<Rightarrow> pystr option" where
  "returned_status x = (case x of Inl err \<Rightarrow> None | Inr r \<Rightarrow> Some (v_status r))"

definition returned_suggestion :: "error + validation_result \<Rightarrow> pystr option" where
  "returned_suggestion x = (case x of Inl err \<Rightarrow> None | Inr r \<Rightarrow> Some (v_suggestion r))"

section \<open>Extracting the links of a file\<close>

definition is_likely_code_snippet :: "pystr \<Rightarrow> pystr \<Rightarrow> pystr \<Rightarrow> bool" where
  "is_likely_code_snippet line link_text link_target =
     (if contains line [BACKTICK, BACKTICK, BACKTICK] \<or> startswith (strip line) (py ''    '')
      then True
      else if link_text \<in> set [py ''this'', py ''&'', py ''='']
              \<and> (contains link_target (py ''const'') \<or> contains link_target (py ''&''))
      then True
      else if (contains link_target (py ''const'')
               \<and> (contains link_target (py ''&'') \<or> contains link_target (py ''*'')))
              \<or> contains link_target (py ''std::'')
              \<or> (contains link_target (py ''::'') \<and> \<not> contains link_target (py ''http''))
      then True
      else if contains link_text (py '','')
              \<and> (contains link_target (py ''const'') \<or> contains link_target (py ''&''))
      then True
      else False)"

text \<open>
  The pattern \<^verbatim>\<open>\[([^\]]*)\]\(([^)]*)\)\<close> matched at the start of \<open>s\<close>: an opening bracket,
  the characters up to the next closing bracket, that bracket, an opening parenthesis, the
  characters up to the next closing parenthesis, and that parenthesis.  Neither group can
  cross its own closing character, so there is at most one way to match.  The result is
  the two groups and the text after the match.
\<close>

definition match_link :: "pystr \<Rightarrow> (pystr \<times> pystr \<times> pystr) option" where
  "match_link s =
     (case s of
        [] \<Rightarrow> None
      | c # cs \<Rightarrow>
          if c \<noteq> LBRACKET then None
          else (case dropWhile (\<lambda>x. x \<noteq> RBRACKET) cs of
                  rb # lp # r2 \<Rightarrow>
                    if lp \<noteq> LPAR then None
                    else (case dropWhile (\<lambda>x. x \<noteq> RPAR) r2 of
                            [] \<Rightarrow> None
                          | rp # rest \<Rightarrow>
                              Some (takeWhile (\<lambda>x. x \<noteq> RBRACKET) cs,
                                    takeWhile (\<lambda>x. x \<noteq> RPAR) r2, rest))
                | _ \<Rightarrow> None))"

lemma match_link_shorter: "match_link s = Some (t, g, rest) \<Longrightarrow> length rest < length s"
proof -
  assume m: "match_link s = Some (t, g, rest)"
  then obtain c cs where s: "s = c # cs"
    by (cases s) (auto simp: match_link_def)
  from m s obtain rb lp r2 where d1: "dropWhile (\<lambda>x. x \<noteq> RBRACKET) cs = rb # lp # r2"
    by (auto simp: match_link_def split: if_splits list.splits)
  from m s d1 obtain rp where d2: "dropWhile (\<lambda>x. x \<noteq> RPAR) r2 = rp # rest"
    by (auto simp: match_link_def split: if_splits list.splits)
  have "length (rp # rest) \<le> length r2"
    unfolding d2 [symmetric] by (rule length_dropWhile_le)
  moreover have "length (rb # lp # r2) \<le> length cs"
    unfolding d1 [symmetric] by (rule length_dropWhile_le)
  ultimately show ?thesis
    using s by simp
qed

text \<open>\<^verbatim>\<open>re.findall\<close>: the matches from left to right; the search goes on after a match,
  and one character further where there is none.\<close>

function findall_links :: "pystr \<Rightarrow> (pystr \<times> pystr) list" where
  "findall_links [] = []"
| "findall_links (c # cs) =
     (case match_link (c # cs) of
        Some (t, g, rest) \<Rightarrow> (t, g) # findall_links rest
      | None \<Rightarrow> findall_links cs)"
  by pat_completeness auto
termination
  by (relation "measure length") (auto dest: match_link_shorter)

text \<open>An extracted link: the dictionary with the keys \<open>line_num\<close>, \<open>text\<close> and \<open>target\<close>.\<close>

record link_candidate =
  c_line_num :: nat
  c_text :: pystr
  c_target :: pystr

text \<open>The inner loop of \<^verbatim>\<open>extract_links_from_file\<close>, over the matches of one line.\<close>

fun collect_matches :: "link_candidate list \<Rightarrow> nat \<Rightarrow> pystr \<Rightarrow> (pystr \<times> pystr) list \<Rightarrow> link_candidate list" where
  "collect_matches links n line [] = links"
| "collect_matches links n line ((link_text, link_target) # ms) =
     (if strip link_text \<noteq> [] \<and> strip link_target \<noteq> [] then
        (if is_likely_code_snippet line link_text link_target then collect_matches links n line ms
         else collect_matches
                (links @ [\<lparr>c_line_num = n, c_text = link_text, c_target = link_target\<rparr>]) n line ms)
      else collect_matches links n line ms)"

definition fence_line :: "pystr \<Rightarrow> bool" where
  "fence_line line = startswith (strip line) [BACKTICK, BACKTICK, BACKTICK]"

text \<open>
  The outer loop: the state is the flag \<open>in_code_block\<close> and the list of links; \<open>n\<close> is the
  number of the line (\<^verbatim>\<open>enumerate(lines, 1)\<close>).  The function returns the state at the end.
\<close>

fun scan_lines :: "bool \<times> link_candidate list \<Rightarrow> nat \<Rightarrow> pystr list \<Rightarrow> bool \<times> link_candidate list" where
  "scan_lines (in_code_block, links) n [] = (in_code_block, links)"
| "scan_lines (in_code_block, links) n (line # rest) =
     (if fence_line line then scan_lines (\<not> in_code_block, links) (n + 1) rest
      else if in_code_block then scan_lines (in_code_block, links) (n + 1) rest
      else scan_lines (in_code_block, collect_matches links n line (findall_links line))
             (n + 1) rest)"

definition extract_links_from_file :: "env \<Rightarrow> pystr \<Rightarrow> link_candidate list" where
  "extract_links_from_file e file_path =
     (case open_file e file_path of
        Readable content \<Rightarrow> snd (scan_lines (False, []) 1 (split_nl content))
      | Broken ls \<Rightarrow> [])"

section \<open>The run over the files\<close>

text \<open>The counters of \<^verbatim>\<open>main\<close>.\<close>

record counters =
  total_links :: nat
  valid_links :: nat
  invalid_links :: nat
  missing_anchors :: nat
  external_unreachable :: nat

definition count_result :: "counters \<Rightarrow> validation_result \<Rightarrow> counters" where
  "count_result k result =
     (if v_status result = py ''valid'' then k\<lparr>valid_links := valid_links k + 1\<rparr>
      else if v_status result = py ''invalid'' then k\<lparr>invalid_links := invalid_links k + 1\<rparr>
      else if v_status result = py ''missing-anchor''
        then k\<lparr>missing_anchors := missing_anchors k + 1\<rparr>
      else if v_status result = py ''external-unreachable''
        then k\<lparr>external_unreachable := external_unreachable k + 1\<rparr>
      else k)"

text \<open>
  The loop of \<^verbatim>\<open>main\<close> over the links of one file, and the loop over the files.  The
  state is the counters and \<open>all_link_results\<close>.  An exception of \<^verbatim>\<open>validate_link\<close> is not
  caught: it ends both loops.  The functions return the state at the end, and the exception
  if one ended the run.
\<close>

fun validate_links ::
  "env \<Rightarrow> pystr \<Rightarrow> counters \<times> validation_result list \<Rightarrow> link_candidate list
     \<Rightarrow> (counters \<times> validation_result list) \<times> error option" where
  "validate_links e md_file (k, all_link_results) [] = ((k, all_link_results), None)"
| "validate_links e md_file (k, all_link_results) (l # rest) =
     (let k = k\<lparr>total_links := total_links k + 1\<rparr>
      in case validate_link e md_file (c_line_num l) (c_text l) (c_target l) of
           Inl err \<Rightarrow> ((k, all_link_results), Some err)
         | Inr result \<Rightarrow>
             validate_links e md_file (count_result k result, all_link_results @ [result]) rest)"

fun process_files ::
  "env \<Rightarrow> counters \<times> validation_result list \<Rightarrow> pystr list
     \<Rightarrow> (counters \<times> validation_result list) \<times> error option" where
  "process_files e st [] = (st, None)"
| "process_files e st (md_file # rest) =
     (case validate_links e md_file st (extract_links_from_file e md_file) of
        (st', Some err) \<Rightarrow> (st', Some err)
      | (st', None) \<Rightarrow> process_files e st' rest)"

definition run_validation ::
  "env \<Rightarrow> pystr list \<Rightarrow> (counters \<times> validation_result list) \<times> error option" where
  "run_validation e md_files =
     process_files e
       (\<lparr>total_links = 0, valid_links = 0, invalid_links = 0, missing_anchors = 0,
         external_unreachable = 0\<rparr>, [])
       md_files"

section \<open>The anchor of a heading, as the specification words it\<close>

text \<open>
  Five steps, in order.  \<open>runs P s\<close> cuts \<open>s\<close> into its maximal runs: the longest blocks
  of neighbours that agree on \<open>P\<close>.
\<close>

function runs :: "(codepoint \<Rightarrow> bool) \<Rightarrow> pystr \<Rightarrow> pystr list" where
  "runs P [] = []"
| "runs P (x # xs) =
     (x # takeWhile (\<lambda>y. P y = P x) xs) # runs P (dropWhile (\<lambda>y. P y = P x) xs)"
  by pat_completeness auto
termination
  by (relation "measure (\<lambda>(P, s). length s)")
     (auto simp: length_dropWhile_le less_Suc_eq_le)

definition replace_runs :: "(codepoint \<Rightarrow> bool) \<Rightarrow> pystr \<Rightarrow> pystr \<Rightarrow> pystr" where
  "replace_runs P repl s =
     concat (map (\<lambda>b. case b of [] \<Rightarrow> [] | x # _ \<Rightarrow> if P x then repl else b) (runs P s))"

definition step_lowercase :: "lowering \<Rightarrow> pystr \<Rightarrow> pystr" where
  "step_lowercase ext s = lower ext s"

definition step_delete :: "pystr \<Rightarrow> pystr" where
  "step_delete s =
     filter (\<lambda>c. (97 \<le> c \<and> c \<le> 122) \<or> (48 \<le> c \<and> c \<le> 57) \<or> isspace c \<or> c = HYPHEN) s"

definition step_whitespace :: "pystr \<Rightarrow> pystr" where
  "step_whitespace s = replace_runs isspace [HYPHEN] s"

definition step_collapse :: "pystr \<Rightarrow> pystr" where
  "step_collapse s = replace_runs (\<lambda>c. c = HYPHEN) [HYPHEN] s"

definition step_trim :: "pystr \<Rightarrow> pystr" where
  "step_trim s = rev (dropWhile (\<lambda>c. c = HYPHEN) (rev (dropWhile (\<lambda>c. c = HYPHEN) s)))"

definition fold_spec :: "lowering \<Rightarrow> pystr \<Rightarrow> pystr" where
  "fold_spec ext heading =
     step_trim (step_collapse (step_whitespace (step_delete (step_lowercase ext heading))))"

section \<open>Folded strings\<close>

text \<open>
  What the anchor function produces: lower-case letters, digits and hyphens only, no two
  hyphens in a row, no hyphen at either end.
\<close>

definition slug_char :: "codepoint \<Rightarrow> bool" where
  "slug_char c \<longleftrightarrow> (97 \<le> c \<and> c \<le> 122) \<or> (48 \<le> c \<and> c \<le> 57) \<or> c = HYPHEN"

definition is_slug :: "pystr \<Rightarrow> bool" where
  "is_slug s \<longleftrightarrow>
     list_all slug_char s \<and> \<not> sublist [HYPHEN, HYPHEN] s \<and>
     \<not> startswith s [HYPHEN] \<and> \<not> endswith s [HYPHEN]"

section \<open>A small tree of documents\<close>

text \<open>
  Five files under \<open>blueprint/\<close>, used to run the functions on concrete input.
  \<open>A.md\<close> is readable; \<open>B.md\<close> exists, and reading it fails after its first line has been
  delivered; \<open>C.md\<close> exists and cannot be opened; \<open>D.md\<close> is one indented line; \<open>E.md\<close>
  holds one link into the directory \<open>blueprint/locked\<close>, which may not be searched, so that
  \<^verbatim>\<open>Path.exists()\<close> raises for every path below it, as it does for a path with a name of
  more than 255 characters.  Outside \<open>blueprint/\<close> there is \<open>/etc\<close>.  No other path exists.
\<close>

definition demo_A :: pystr where
  "demo_A =
     py ''## My Heading'' @ [NL] @
     py ''[link](#my-heading) and [bad](#nope)'' @ [NL] @
     [BACKTICK, BACKTICK, BACKTICK] @ [NL] @
     py ''# Setup [in](#fence)'' @ [NL] @
     [BACKTICK, BACKTICK, BACKTICK] @ [NL] @
     py ''    [x](#y)''"

definition demo_files :: "pystr \<Rightarrow> file_read" where
  "demo_files p =
     (if p = py ''blueprint/A.md'' then Readable demo_A
      else if p = py ''blueprint/B.md'' then Broken [py ''# Intro'' @ [NL]]
      else if p = py ''blueprint/D.md'' then Readable (py ''    [x](#y)'')
      else if p = py ''blueprint/E.md'' then Readable (py ''[notes](./locked/notes.md#intro)'')
      else Broken [])"

definition demo_exists :: "pystr \<Rightarrow> error + bool" where
  "demo_exists p =
     (if startswith p (py ''blueprint/locked/'') then Inl PermissionError
      else if list_ex (\<lambda>c. 255 < length c) (split_by SLASH p) then Inl OSError
      else Inr (p \<in> set [py ''blueprint/A.md'', py ''blueprint/B.md'', py ''blueprint/C.md'',
                          py ''blueprint/D.md'', py ''blueprint/E.md'', py ''/etc'']))"

definition demo_env :: env where
  "demo_env =
     \<lparr>lower_ext = (\<lambda>pre c post. [c]), open_file = demo_files, path_exists = demo_exists\<rparr>"

section \<open>The anchor function: the five steps, and idempotence\<close>

lemma concat_runs: "concat (runs P s) = s"
  by (induction P s rule: runs.induct) simp_all

lemma runs_uniform: "b \<in> set (runs P s) \<Longrightarrow> x \<in> set b \<Longrightarrow> P x = P (hd b)"
proof (induction P s rule: runs.induct)
  case (1 P)
  then show ?case by simp
next
  case (2 P c cs)
  from "2.prems"(1) consider "b = c # takeWhile (\<lambda>y. P y = P c) cs"
    | "b \<in> set (runs P (dropWhile (\<lambda>y. P y = P c) cs))"
    by auto
  then show ?case
  proof cases
    case 1
    with "2.prems"(2) have "x = c \<or> x \<in> set (takeWhile (\<lambda>y. P y = P c) cs)" by simp
    then have "P x = P c" by (auto dest: set_takeWhileD)
    with 1 show ?thesis by simp
  next
    case 2
    then show ?thesis using "2.IH" "2.prems"(2) by blast
  qed
qed

text \<open>Neighbouring blocks of \<open>runs\<close> disagree on \<open>P\<close>: no block can be made longer.\<close>

lemma runs_first:
  "runs P (c # cs) = b # bs \<Longrightarrow> hd b = c"
  by auto

lemma runs_maximal:
  "runs P s = bs1 @ [b1, b2] @ bs2 \<Longrightarrow> P (hd b1) \<noteq> P (hd b2)"
proof (induction P s arbitrary: bs1 rule: runs.induct)
  case (1 P)
  then show ?case by simp
next
  case (2 P x xs)
  let ?d = "dropWhile (\<lambda>y. P y = P x) xs"
  show ?case
  proof (cases bs1)
    case Nil
    with "2.prems" have b1: "b1 = x # takeWhile (\<lambda>y. P y = P x) xs"
      and r: "runs P ?d = b2 # bs2"
      by simp_all
    from r obtain d ds where d: "?d = d # ds"
      by (cases ?d) auto
    then have "P d \<noteq> P x"
      using hd_dropWhile [of "\<lambda>y. P y = P x" xs] by auto
    moreover from r d have "hd b2 = d"
      using runs_first [of P d ds b2 bs2] by simp
    ultimately show ?thesis
      using b1 by simp
  next
    case (Cons a as)
    with "2.prems" have "runs P ?d = as @ [b1, b2] @ bs2"
      by simp
    then show ?thesis
      by (rule "2.IH")
  qed
qed

lemma re_sub_class_filter: "re_sub_class P [] s = filter (\<lambda>c. \<not> P c) s"
  by (induction s) auto

lemma replace_runs_Nil: "replace_runs P repl [] = []"
  by (simp add: replace_runs_def)

lemma replace_runs_skip:
  "replace_runs P repl cs =
     takeWhile (\<lambda>c. \<not> P c) cs @ replace_runs P repl (dropWhile (\<lambda>c. \<not> P c) cs)"
  by (cases cs) (simp_all add: replace_runs_def)

lemma replace_runs_Cons:
  "replace_runs P repl (c # cs) =
     (if P c then repl @ replace_runs P repl (dropWhile P cs) else c # replace_runs P repl cs)"
proof (cases "P c")
  case True
  then have "(\<lambda>y. P y = P c) = P" by auto
  with True show ?thesis by (simp add: replace_runs_def)
next
  case False
  then have "(\<lambda>y. P y = P c) = (\<lambda>y. \<not> P y)" by auto
  with False have "replace_runs P repl (c # cs) =
      c # takeWhile (\<lambda>c. \<not> P c) cs @ replace_runs P repl (dropWhile (\<lambda>c. \<not> P c) cs)"
    by (simp add: replace_runs_def)
  with False show ?thesis
    using replace_runs_skip [of P repl cs] by simp
qed

lemma re_sub_plus_runs: "re_sub_plus P repl s = replace_runs P repl s"
  by (induction P repl s rule: re_sub_plus.induct) (simp_all add: replace_runs_Nil replace_runs_Cons)

lemma lower_from_plain:
  "list_all (\<lambda>c. c < 128 \<and> \<not> (65 \<le> c \<and> c \<le> 90)) s \<Longrightarrow> lower_from ext pre s = s"
  by (induction s arbitrary: pre) (auto simp: ascii_lower_def)

lemma slug_char_not_space: "slug_char c \<Longrightarrow> \<not> isspace c"
  by (auto simp: slug_char_def isspace_def)

lemma slug_char_anchor: "slug_char c \<Longrightarrow> anchor_char c"
  by (auto simp: slug_char_def anchor_char_def)

lemma anchor_char_slug: "anchor_char c \<Longrightarrow> \<not> isspace c \<Longrightarrow> slug_char c"
  by (auto simp: slug_char_def anchor_char_def)

lemma slug_char_plain: "slug_char c \<Longrightarrow> c < 128 \<and> \<not> (65 \<le> c \<and> c \<le> 90)"
  by (auto simp: slug_char_def)

lemma re_sub_plus_none: "list_all (\<lambda>c. \<not> P c) s \<Longrightarrow> re_sub_plus P repl s = s"
  by (induction s) auto

lemma re_sub_plus_all:
  "list_all Q repl \<Longrightarrow> list_all (\<lambda>c. P c \<or> Q c) s \<Longrightarrow> list_all Q (re_sub_plus P repl s)"
proof (induction P repl s rule: re_sub_plus.induct)
  case (1 P repl)
  then show ?case by simp
next
  case (2 P repl c cs)
  have "list_all (\<lambda>c. P c \<or> Q c) (dropWhile P cs)"
    using "2.prems"(2) by (auto simp: list_all_iff dest: set_dropWhileD)
  then show ?case
    using 2 by auto
qed

lemma startswith_single: "startswith s [c] \<longleftrightarrow> s \<noteq> [] \<and> hd s = c"
  by (cases s) auto

lemma endswith_single: "endswith s [c] \<longleftrightarrow> s \<noteq> [] \<and> last s = c"
  by (cases s rule: rev_cases) (auto simp: endswith_def)

lemma re_sub_plus_head:
  "s \<noteq> [] \<Longrightarrow> \<not> P (hd s) \<Longrightarrow> re_sub_plus P repl s = hd s # re_sub_plus P repl (tl s)"
  by (cases s) auto

lemma collapse_no_double:
  "\<not> sublist [h, h] (re_sub_plus (\<lambda>c. c = h) [h] s)"
proof (induction "\<lambda>c::nat. c = h" "[h]" s rule: re_sub_plus.induct)
  case 1
  then show ?case by simp
next
  case (2 c cs)
  show ?case
  proof (cases "c = h")
    case True
    let ?d = "dropWhile (\<lambda>c. c = h) cs"
    have ih: "\<not> sublist [h, h] (re_sub_plus (\<lambda>c. c = h) [h] ?d)"
      using 2 True by simp
    have "\<not> prefix [h, h] (h # re_sub_plus (\<lambda>c. c = h) [h] ?d)"
    proof (cases ?d)
      case Nil
      then have e: "re_sub_plus (\<lambda>c. c = h) [h] ?d = []"
        by (simp only: re_sub_plus.simps(1))
      show ?thesis unfolding e by simp
    next
      case (Cons d ds)
      then have "d \<noteq> h"
        using hd_dropWhile [of "\<lambda>c. c = h" cs] by auto
      with Cons have e: "re_sub_plus (\<lambda>c. c = h) [h] ?d = d # re_sub_plus (\<lambda>c. c = h) [h] ds"
        by (simp only: re_sub_plus.simps(2) if_False)
      show ?thesis unfolding e using \<open>d \<noteq> h\<close> by simp
    qed
    with ih True show ?thesis
      by (simp add: sublist_Cons_right)
  next
    case False
    with 2 show ?thesis
      by (simp add: sublist_Cons_right)
  qed
qed

lemma collapse_fixed:
  "\<not> sublist [h, h] s \<Longrightarrow> re_sub_plus (\<lambda>c. c = h) [h] s = s"
proof (induction s)
  case Nil
  then show ?case by simp
next
  case (Cons c cs)
  from Cons.prems have nd: "\<not> sublist [h, h] cs" and np: "\<not> prefix [h, h] (c # cs)"
    by (simp_all add: sublist_Cons_right)
  show ?case
  proof (cases "c = h")
    case True
    with np have "dropWhile (\<lambda>c. c = h) cs = cs"
      by (cases cs) auto
    with True Cons.IH [OF nd] show ?thesis by simp
  next
    case False
    with Cons.IH [OF nd] show ?thesis by simp
  qed
qed

lemma dropWhile_unchanged: "\<not> startswith s [h] \<Longrightarrow> dropWhile (\<lambda>c. c = h) s = s"
  by (cases s) simp_all

lemma not_startswith_dropWhile: "\<not> startswith (dropWhile (\<lambda>c. c = h) s) [h]"
  by (induction s) simp_all

lemma startswith_prefix: "prefix a b \<Longrightarrow> startswith a [h] \<Longrightarrow> startswith b [h]"
  by (cases a; cases b) simp_all

lemma strip_by_fixed:
  assumes "\<not> startswith s [h]" and "\<not> endswith s [h]"
  shows "strip_by (\<lambda>c. c = h) s = s"
proof -
  have "dropWhile (\<lambda>c. c = h) s = s"
    using assms(1) by (rule dropWhile_unchanged)
  moreover have "dropWhile (\<lambda>c. c = h) (rev s) = rev s"
    using assms(2) unfolding endswith_def rev.simps append_Nil by (rule dropWhile_unchanged)
  ultimately show ?thesis
    by (simp add: strip_by_def lstrip_by_def rstrip_by_def)
qed

lemma strip_by_sublist: "sublist (strip_by P s) s"
proof -
  have "suffix (dropWhile P (rev (dropWhile P s))) (rev (dropWhile P s))"
    by (rule suffix_dropWhile)
  then have "prefix (rev (dropWhile P (rev (dropWhile P s)))) (dropWhile P s)"
    by (simp add: suffix_to_prefix)
  then have "sublist (rev (dropWhile P (rev (dropWhile P s)))) (dropWhile P s)"
    by (rule prefix_imp_sublist)
  moreover have "sublist (dropWhile P s) s"
    by (rule suffix_imp_sublist) (rule suffix_dropWhile)
  ultimately have "sublist (rev (dropWhile P (rev (dropWhile P s)))) s"
    by (rule sublist_order.order_trans)
  then show ?thesis
    by (simp add: strip_by_def lstrip_by_def rstrip_by_def)
qed

lemma strip_by_ends:
  "\<not> startswith (strip_by (\<lambda>c. c = h) s) [h] \<and> \<not> endswith (strip_by (\<lambda>c. c = h) s) [h]"
proof -
  define u where "u = dropWhile (\<lambda>c. c = h) s"
  define v where "v = dropWhile (\<lambda>c. c = h) (rev u)"
  have t: "strip_by (\<lambda>c. c = h) s = rev v"
    by (simp add: strip_by_def lstrip_by_def rstrip_by_def u_def v_def)
  have "\<not> startswith v [h]"
    unfolding v_def by (rule not_startswith_dropWhile)
  then have e: "\<not> endswith (rev v) [h]"
    by (simp add: endswith_def)
  have "suffix v (rev u)"
    unfolding v_def by (rule suffix_dropWhile)
  then have p: "prefix (rev v) u"
    by (simp add: suffix_to_prefix)
  have "\<not> startswith u [h]"
    unfolding u_def by (rule not_startswith_dropWhile)
  with p have "\<not> startswith (rev v) [h]"
    using startswith_prefix by blast
  with e show ?thesis
    unfolding t by simp
qed

lemma generate_github_anchor_is_slug: "is_slug (generate_github_anchor ext x)"
proof -
  define a1 where "a1 = re_sub_class (\<lambda>c. \<not> anchor_char c) [] (lower ext x)"
  define a2 where "a2 = re_sub_plus isspace [HYPHEN] a1"
  define a3 where "a3 = re_sub_plus (\<lambda>c. c = HYPHEN) [HYPHEN] a2"
  define a4 where "a4 = strip_by (\<lambda>c. c = HYPHEN) a3"
  have g: "generate_github_anchor ext x = a4"
    by (simp add: generate_github_anchor_def a1_def a2_def a3_def a4_def)
  have "list_all anchor_char a1"
    by (simp add: a1_def re_sub_class_filter list_all_iff)
  then have s1: "list_all (\<lambda>c. isspace c \<or> slug_char c) a1"
    by (auto simp: list_all_iff intro: anchor_char_slug)
  have h: "list_all slug_char [HYPHEN]"
    by (simp add: slug_char_def)
  have s2: "list_all slug_char a2"
    unfolding a2_def using h s1 by (rule re_sub_plus_all)
  then have "list_all (\<lambda>c. c = HYPHEN \<or> slug_char c) a2"
    by (simp add: list_all_iff)
  with h have s3: "list_all slug_char a3"
    unfolding a3_def by (rule re_sub_plus_all)
  have sub: "sublist a4 a3"
    unfolding a4_def by (rule strip_by_sublist)
  then have "set a4 \<subseteq> set a3"
    by (rule set_mono_sublist)
  with s3 have s4: "list_all slug_char a4"
    by (auto simp: list_all_iff)
  have nd3: "\<not> sublist [HYPHEN, HYPHEN] a3"
    unfolding a3_def by (rule collapse_no_double)
  have nd: "\<not> sublist [HYPHEN, HYPHEN] a4"
  proof
    assume "sublist [HYPHEN, HYPHEN] a4"
    from this sub have "sublist [HYPHEN, HYPHEN] a3"
      by (rule sublist_order.order_trans)
    with nd3 show False by simp
  qed
  have ends: "\<not> startswith a4 [HYPHEN] \<and> \<not> endswith a4 [HYPHEN]"
    unfolding a4_def by (rule strip_by_ends)
  show ?thesis
    unfolding g is_slug_def using s4 nd ends by simp
qed

lemma generate_github_anchor_fixes_slug:
  assumes "is_slug s"
  shows "generate_github_anchor ext s = s"
proof -
  from assms have all: "list_all slug_char s" and nd: "\<not> sublist [HYPHEN, HYPHEN] s"
    and st: "\<not> startswith s [HYPHEN]" and en: "\<not> endswith s [HYPHEN]"
    by (simp_all add: is_slug_def)
  have l: "lower ext s = s"
    unfolding lower_def using all
    by (intro lower_from_plain) (auto simp: list_all_iff dest: slug_char_plain)
  have a1: "re_sub_class (\<lambda>c. \<not> anchor_char c) [] s = s"
    using all by (auto simp: re_sub_class_filter list_all_iff filter_id_conv intro: slug_char_anchor)
  have a2: "re_sub_plus isspace [HYPHEN] s = s"
    using all by (intro re_sub_plus_none) (auto simp: list_all_iff dest: slug_char_not_space)
  have a3: "re_sub_plus (\<lambda>c. c = HYPHEN) [HYPHEN] s = s"
    using nd by (rule collapse_fixed)
  have a4: "strip_by (\<lambda>c. c = HYPHEN) s = s"
    using st en by (rule strip_by_fixed)
  show ?thesis
    by (simp add: generate_github_anchor_def l a1 a2 a3 a4)
qed

lemmas anchor_eval =
  generate_github_anchor_def py_def lower_def ascii_lower_def anchor_char_def isspace_def
  strip_by_def lstrip_by_def rstrip_by_def

text \<open>
  C2.  For every heading the anchor function returns what the five steps of the
  specification give, applied in order: lower-casing; deleting every character that is not
  a lower-case letter, a digit, whitespace or a hyphen; replacing each maximal run of
  whitespace by one hyphen; collapsing each maximal run of hyphens to one hyphen; trimming
  the hyphens at both ends.  The four examples of the specification evaluate as stated,
  whatever the lowering beyond ASCII.
\<close>

theorem anchor_folder_five_steps:
  "generate_github_anchor ext heading =
     step_trim (step_collapse (step_whitespace (step_delete (step_lowercase ext heading))))
   \<and> generate_github_anchor ext (py ''Hello, World!'') = py ''hello-world''
   \<and> generate_github_anchor ext (py ''  Multiple   Spaces  '') = py ''multiple-spaces''
   \<and> generate_github_anchor ext (py ''C++ & Rust'') = py ''c-rust''
   \<and> generate_github_anchor ext [] = []"
proof -
  have f: "anchor_char =
      (\<lambda>c. (97 \<le> c \<and> c \<le> 122) \<or> (48 \<le> c \<and> c \<le> 57) \<or> isspace c \<or> c = HYPHEN)"
    by (simp add: anchor_char_def fun_eq_iff)
  have "generate_github_anchor ext heading =
      step_trim (step_collapse (step_whitespace (step_delete (step_lowercase ext heading))))"
    by (simp add: generate_github_anchor_def step_trim_def step_collapse_def step_whitespace_def
        step_delete_def step_lowercase_def re_sub_class_filter re_sub_plus_runs f [symmetric]
        strip_by_def lstrip_by_def rstrip_by_def)
  moreover have "generate_github_anchor ext (py ''Hello, World!'') = py ''hello-world''"
    by (simp add: anchor_eval)
  moreover have "generate_github_anchor ext (py ''  Multiple   Spaces  '') = py ''multiple-spaces''"
    by (simp add: anchor_eval)
  moreover have "generate_github_anchor ext (py ''C++ & Rust'') = py ''c-rust''"
    by (simp add: anchor_eval)
  moreover have "generate_github_anchor ext [] = []"
    by (simp add: anchor_eval)
  ultimately show ?thesis by blast
qed

theorem anchor_folder_five_steps_witness:
  "fold_spec (lower_ext demo_env) (py ''Anchor  Folder: 5 -- Steps!'') = py ''anchor-folder-5-steps''
   \<and> generate_github_anchor (lower_ext demo_env) (py ''Anchor  Folder: 5 -- Steps!'')
       = py ''anchor-folder-5-steps''"
proof -
  have "generate_github_anchor (lower_ext demo_env) (py ''Anchor  Folder: 5 -- Steps!'')
      = py ''anchor-folder-5-steps''"
    by (simp add: anchor_eval)
  then show ?thesis
    using anchor_folder_five_steps [of "lower_ext demo_env" "py ''Anchor  Folder: 5 -- Steps!''"]
    by (simp add: fold_spec_def)
qed

text \<open>
  C7.  The anchor function is idempotent: applied to one of its own results it returns
  that result unchanged.
\<close>

theorem generate_github_anchor_idempotent:
  "generate_github_anchor ext (generate_github_anchor ext x) = generate_github_anchor ext x"
  by (rule generate_github_anchor_fixes_slug) (rule generate_github_anchor_is_slug)

theorem generate_github_anchor_idempotent_witness:
  "generate_github_anchor (lower_ext demo_env) (py ''hello-world'') = py ''hello-world''"
proof -
  have "generate_github_anchor (lower_ext demo_env) (py ''Hello, World!'') = py ''hello-world''"
    by (simp add: anchor_eval)
  then show ?thesis
    using generate_github_anchor_idempotent [of "lower_ext demo_env" "py ''Hello, World!''"]
    by simp
qed

section \<open>Validating one link: the classification\<close>

lemma anchor_among_iff:
  "anchor_among ext hs a \<longleftrightarrow> (\<exists>h \<in> set hs. generate_github_anchor ext h = a)"
  by (induction hs) auto

lemma hash_not_http:
  assumes "startswith link_target [HASH]"
  shows "\<not> startswith link_target (py ''http://'')" and "\<not> startswith link_target (py ''https://'')"
  using assms by (cases link_target; simp add: py_def)+

lemma status_distinct:
  "py ''valid'' \<noteq> py ''missing-anchor''" "py ''valid'' \<noteq> py ''invalid''"
  "py ''invalid'' \<noteq> py ''missing-anchor''"
  "py ''valid'' \<noteq> py ''external-unreachable''" "py ''invalid'' \<noteq> py ''external-unreachable''"
  "py ''missing-anchor'' \<noteq> py ''external-unreachable''"
  by (simp_all add: py_def)

lemmas string_eval =
  py_def isspace_def strip_def rstrip_def strip_by_def lstrip_by_def rstrip_by_def endswith_def
  split_nl_def

lemmas demo_eval =
  demo_env_def demo_files_def demo_A_def demo_exists_def

lemmas result_eval =
  validate_link_def returned_status_def returned_suggestion_def Let_def

lemma demo_headings_A:
  "extract_headings demo_env (py ''blueprint/A.md'') = [py ''My Heading'', py ''Setup [in](#fence)'']"
  by (simp add: extract_headings_def strip_heading_marker_def demo_eval string_eval)







text \<open>Every target can be cut in this way, so the cut excludes no link.\<close>

lemma link_target_cut_exists:
  "\<exists>lead file_part rest.
     link_target = lead @ file_part @ rest
     \<and> (lead = [] \<or> lead = py ''./'')
     \<and> (lead = [] \<longrightarrow> \<not> startswith file_part (py ''./''))
     \<and> HASH \<notin> set file_part
     \<and> (rest = [] \<or> startswith rest [HASH])"
proof -
  define front where "front = takeWhile (\<lambda>c. c \<noteq> HASH) link_target"
  define rest where "rest = dropWhile (\<lambda>c. c \<noteq> HASH) link_target"
  have t: "link_target = front @ rest"
    by (simp add: front_def rest_def)
  have nf: "HASH \<notin> set front"
    unfolding front_def by (auto dest: set_takeWhileD)
  have r: "rest = [] \<or> startswith rest [HASH]"
    using hd_dropWhile [of "\<lambda>c. c \<noteq> HASH" link_target]
    unfolding rest_def by (cases "dropWhile (\<lambda>c. c \<noteq> HASH) link_target") auto
  show ?thesis
  proof (cases "startswith front (py ''./'')")
    case True
    then obtain stem where f: "front = py ''./'' @ stem"
      by (cases front; cases "tl front") (auto simp: py_def)
    have nb: "HASH \<notin> set stem"
      using nf unfolding f by simp
    have "link_target = py ''./'' @ stem @ rest"
      unfolding t f by simp
    moreover have "py ''./'' = [] \<or> py ''./'' = py ''./''"
      by simp
    moreover have "py ''./'' = [] \<longrightarrow> \<not> startswith stem (py ''./'')"
      by (simp add: py_def)
    ultimately show ?thesis
      using nb r by blast
  next
    case False
    have "link_target = [] @ front @ rest"
      unfolding t by simp
    then show ?thesis
      using False nf r by blast
  qed
qed

text \<open>
  C1.  A link whose target begins with \<open>#\<close> is resolved against the headings of the source
  document: with the leading \<open>#\<close> removed, the call returns the status \<open>valid\<close> exactly when
  some extracted heading folds to a string equal to the requested anchor; otherwise it
  returns the status \<open>missing-anchor\<close> and a suggestion that names the missing anchor and the
  source document.
\<close>

theorem anchor_only_link_status:
  assumes "startswith link_target [HASH]"
  shows "(returned_status (validate_link e source_file n link_text link_target) = Some (py ''valid'')
            \<longleftrightarrow> (\<exists>h \<in> set (extract_headings e source_file).
                   generate_github_anchor (lower_ext e) h = drop 1 link_target))
       \<and> (\<not> (\<exists>h \<in> set (extract_headings e source_file).
                   generate_github_anchor (lower_ext e) h = drop 1 link_target)
            \<longrightarrow> returned_status (validate_link e source_file n link_text link_target)
                  = Some (py ''missing-anchor'')
              \<and> returned_suggestion (validate_link e source_file n link_text link_target) =
                  Some (py ''Anchor '' @ [QUOTE, HASH] @ drop 1 link_target @ [QUOTE] @
                        py '' not found in '' @ source_file @
                        py ''. Check heading exists and anchor format.''))"
  using hash_not_http [OF assms] assms
  by (simp add: result_eval anchor_exists_def anchor_among_iff anchor_message_def
      status_distinct status_distinct [symmetric])

theorem anchor_only_link_status_witness:
  "returned_status (validate_link demo_env (py ''blueprint/A.md'') 2 (py ''link'') (py ''#my-heading''))
     = Some (py ''valid'')
   \<and> returned_status (validate_link demo_env (py ''blueprint/A.md'') 2 (py ''bad'') (py ''#nope''))
     = Some (py ''missing-anchor'')
   \<and> returned_suggestion (validate_link demo_env (py ''blueprint/A.md'') 2 (py ''bad'') (py ''#nope''))
     = Some (py ''Anchor '' @ [QUOTE] @ py ''#nope'' @ [QUOTE] @
             py '' not found in blueprint/A.md. Check heading exists and anchor format.'')"
proof -
  have h: "lower_ext demo_env = (\<lambda>pre c post. [c])"
    by (simp add: demo_env_def)
  have f1: "generate_github_anchor (\<lambda>pre c post. [c]) (py ''My Heading'') = py ''my-heading''"
    by (simp add: anchor_eval)
  have f2: "generate_github_anchor (\<lambda>pre c post. [c]) (py ''Setup [in](#fence)'') = py ''setup-infence''"
    by (simp add: anchor_eval)
  have a: "startswith (py ''#my-heading'') [HASH]" and b: "startswith (py ''#nope'') [HASH]"
    by (simp_all add: py_def)
  have d1: "drop 1 (py ''#my-heading'') = py ''my-heading''" and d2: "drop 1 (py ''#nope'') = py ''nope''"
    by (simp_all add: py_def)
  have ne: "py ''my-heading'' \<noteq> py ''nope''" "py ''setup-infence'' \<noteq> py ''nope''"
    by (simp_all add: py_def)
  show ?thesis
    using anchor_only_link_status [OF a, of demo_env "py ''blueprint/A.md''" 2 "py ''link''"]
      anchor_only_link_status [OF b, of demo_env "py ''blueprint/A.md''" 2 "py ''bad''"]
    unfolding demo_headings_A h d1 d2
    by (simp add: f1 f2 ne) (simp add: py_def)
qed





text \<open>
  C5, as amended.  A target that fails all three classification rules (it starts with
  neither \<open>http://\<close> nor \<open>https://\<close>, nor with \<open>#\<close>, nor with \<open>./\<close>, and it holds at
  least two \<open>/\<close>) gets the status \<open>invalid\<close> and the one fixed suggestion that recommends
  root-relative links; the call returns, no exception leaves it.  Absolute paths and
  relative paths with two or more \<open>/\<close> are of this shape.  A target without \<open>/\<close>, such
  as a \<open>mailto:\<close> address, and a path with exactly one \<open>/\<close>, such as \<open>/README.md\<close>, are
  not: the third rule takes them as relative files.
\<close>

theorem unsupported_link_shape:
  assumes "\<not> startswith link_target (py ''http://'')"
      and "\<not> startswith link_target (py ''https://'')"
      and "\<not> startswith link_target [HASH]"
      and "\<not> startswith link_target (py ''./'')"
      and "contains link_target [SLASH]"
      and "count_list link_target SLASH \<noteq> 1"
  shows "returned_status (validate_link e source_file n link_text link_target) = Some (py ''invalid'')
       \<and> returned_suggestion (validate_link e source_file n link_text link_target) =
           Some (py ''Link format not supported. Use relative links (./file.md) for local files.'')"
  using assms by (simp add: result_eval)


theorem unsupported_link_shape_witness:
  "returned_status (validate_link demo_env (py ''blueprint/A.md'') 5 (py ''guide'') (py ''/docs/guide.md''))
     = Some (py ''invalid'')
   \<and> returned_suggestion (validate_link demo_env (py ''blueprint/A.md'') 5 (py ''guide'') (py ''/docs/guide.md''))
     = Some (py ''Link format not supported. Use relative links (./file.md) for local files.'')
   \<and> returned_suggestion (validate_link demo_env (py ''blueprint/A.md'') 6 (py ''api'') (py ''docs/api/index.md''))
     = Some (py ''Link format not supported. Use relative links (./file.md) for local files.'')"
proof -
  have c1: "\<not> startswith (py ''/docs/guide.md'') (py ''http://'')"
    "\<not> startswith (py ''/docs/guide.md'') (py ''https://'')"
    "\<not> startswith (py ''/docs/guide.md'') [HASH]"
    "\<not> startswith (py ''/docs/guide.md'') (py ''./'')"
    "contains (py ''/docs/guide.md'') [SLASH]"
    "count_list (py ''/docs/guide.md'') SLASH \<noteq> 1"
    by (simp_all add: py_def)
  have c2: "\<not> startswith (py ''docs/api/index.md'') (py ''http://'')"
    "\<not> startswith (py ''docs/api/index.md'') (py ''https://'')"
    "\<not> startswith (py ''docs/api/index.md'') [HASH]"
    "\<not> startswith (py ''docs/api/index.md'') (py ''./'')"
    "contains (py ''docs/api/index.md'') [SLASH]"
    "count_list (py ''docs/api/index.md'') SLASH \<noteq> 1"
    by (simp_all add: py_def)
  show ?thesis
    using unsupported_link_shape [OF c1, of demo_env "py ''blueprint/A.md''" 5 "py ''guide''"]
      unsupported_link_shape [OF c2, of demo_env "py ''blueprint/A.md''" 6 "py ''api''"]
    by simp
qed

text \<open>
  The claim as it was stated fails for a \<open>mailto:\<close> target and for an absolute path with one
  \<open>/\<close>: neither gets the fixed suggestion.
\<close>

theorem mailto_target_counterexample:
  "returned_status (validate_link demo_env (py ''blueprint/A.md'') 7 (py ''mail'') (py ''mailto:team@example.com''))
     = Some (py ''invalid'')
   \<and> returned_suggestion (validate_link demo_env (py ''blueprint/A.md'') 7 (py ''mail'') (py ''mailto:team@example.com''))
     = Some (py ''File '' @ [QUOTE] @ py ''mailto:team@example.com'' @ [QUOTE] @
             py '' does not exist in blueprint/ directory.'')
   \<and> returned_suggestion (validate_link demo_env (py ''blueprint/A.md'') 7 (py ''mail'') (py ''mailto:team@example.com''))
     \<noteq> Some (py ''Link format not supported. Use relative links (./file.md) for local files.'')
   \<and> returned_suggestion (validate_link demo_env (py ''blueprint/A.md'') 8 (py ''root'') (py ''/README.md''))
     \<noteq> Some (py ''Link format not supported. Use relative links (./file.md) for local files.'')"
  by (simp add: result_eval link_parts_def split_first_def image_suffixes_def demo_env_def
      demo_exists_def blueprint_path_def path_components_def string_eval)

section \<open>Extracting links: indentation and fences\<close>

lemma strip_by_first: "strip_by P s = c # cs \<Longrightarrow> \<not> P c"
proof -
  assume a: "strip_by P s = c # cs"
  define u where "u = dropWhile P s"
  define v where "v = dropWhile P (rev u)"
  have t: "strip_by P s = rev v"
    by (simp add: strip_by_def lstrip_by_def rstrip_by_def u_def v_def)
  have "suffix v (rev u)"
    unfolding v_def by (rule suffix_dropWhile)
  then have "prefix (rev v) u"
    by (simp add: suffix_to_prefix)
  with a t obtain r where u: "u = c # r"
    by (auto simp: prefix_def)
  then show ?thesis
    using hd_dropWhile [of P s] unfolding u_def by auto
qed

lemma indent_test_never_true: "\<not> startswith (strip line) (py ''    '')"
proof (cases "strip line")
  case Nil
  then show ?thesis by (simp add: py_def)
next
  case (Cons c cs)
  then have "\<not> isspace c"
    unfolding strip_def by (rule strip_by_first)
  then have "c \<noteq> 32"
    by (auto simp: isspace_def)
  with Cons show ?thesis
    by (simp add: py_def)
qed

lemma demo_links_D:
  "extract_links_from_file demo_env (py ''blueprint/D.md'')
     = [\<lparr>c_line_num = 1, c_text = py ''x'', c_target = py ''#y''\<rparr>]"
  by (simp add: extract_links_from_file_def fence_line_def match_link_def
      is_likely_code_snippet_def demo_env_def demo_files_def string_eval)

text \<open>
  C9.  The filter tests \<open>line.strip().startswith('    ')\<close>: the indentation is looked for
  after \<open>strip\<close> has removed it, so the test is false for every line, and a link on a
  line indented by four spaces is extracted like any other.  At the line \<open>    [x](#y)\<close> the
  filter answers \<open>False\<close> and the link becomes a candidate.  (The other half of the
  filter's first test works: see \<open>fence_marker_line_discarded\<close> below.)
\<close>

theorem indented_link_is_extracted:
  "\<not> startswith (strip line) (py ''    '')
   \<and> is_likely_code_snippet (py ''    [x](#y)'') (py ''x'') (py ''#y'') = False
   \<and> extract_links_from_file demo_env (py ''blueprint/D.md'')
       = [\<lparr>c_line_num = 1, c_text = py ''x'', c_target = py ''#y''\<rparr>]"
proof -
  have "is_likely_code_snippet (py ''    [x](#y)'') (py ''x'') (py ''#y'') = False"
    by (simp add: is_likely_code_snippet_def string_eval)
  then show ?thesis
    using indent_test_never_true demo_links_D by blast
qed

lemma collect_matches_lines:
  "l \<in> set (collect_matches links n line ms) \<Longrightarrow> l \<in> set links \<or> c_line_num l = n"
proof (induction ms arbitrary: links)
  case Nil
  then show ?case by simp
next
  case (Cons m ms)
  obtain t g where m: "m = (t, g)" by (cases m)
  show ?case
  proof (cases "strip t \<noteq> [] \<and> strip g \<noteq> [] \<and> \<not> is_likely_code_snippet line t g")
    case True
    with Cons.prems
    have "l \<in> set (collect_matches
            (links @ [\<lparr>c_line_num = n, c_text = t, c_target = g\<rparr>]) n line ms)"
      unfolding m by simp
    from Cons.IH [OF this] show ?thesis by auto
  next
    case False
    with Cons.prems have "l \<in> set (collect_matches links n line ms)"
      unfolding m by (auto split: if_splits)
    from Cons.IH [OF this] show ?thesis .
  qed
qed

text \<open>A line that holds a fence marker gives no link, whatever its matches.\<close>

lemma fence_marker_line_discarded:
  "contains line [BACKTICK, BACKTICK, BACKTICK] \<Longrightarrow> collect_matches links n line ms = links"
proof (induction ms)
  case Nil
  then show ?case by simp
next
  case (Cons m ms)
  obtain t g where m: "m = (t, g)" by (cases m)
  from Cons show ?case
    unfolding m by (simp add: is_likely_code_snippet_def)
qed

lemma scan_lines_range:
  "l \<in> set (snd (scan_lines (b, links) n ls)) \<Longrightarrow>
     l \<in> set links \<or> (n \<le> c_line_num l \<and> c_line_num l < n + length ls)"
proof (induction ls arbitrary: b links n)
  case Nil
  then show ?case by simp
next
  case (Cons x xs)
  show ?case
  proof (cases "fence_line x")
    case True
    with Cons.prems have "l \<in> set (snd (scan_lines (\<not> b, links) (n + 1) xs))" by simp
    from Cons.IH [OF this] show ?thesis by auto
  next
    case False
    show ?thesis
    proof (cases b)
      case True
      with False Cons.prems have "l \<in> set (snd (scan_lines (b, links) (n + 1) xs))" by simp
      from Cons.IH [OF this] show ?thesis by auto
    next
      case nb: False
      with False Cons.prems
      have "l \<in> set (snd (scan_lines (b, collect_matches links n x (findall_links x)) (n + 1) xs))"
        by simp
      from Cons.IH [OF this] show ?thesis
        using collect_matches_lines [of l links n x "findall_links x"] by auto
    qed
  qed
qed

lemma scan_lines_append:
  "scan_lines (b, links) n (xs @ ys) = scan_lines (scan_lines (b, links) n xs) (n + length xs) ys"
  by (induction xs arbitrary: b links n) simp_all

lemma scan_lines_inside:
  "list_all (\<lambda>l. \<not> fence_line l) ls \<Longrightarrow> scan_lines (True, links) n ls = (True, links)"
  by (induction ls arbitrary: n) simp_all

lemma scan_lines_state:
  "fst (scan_lines (b, links) n ls) = (b \<noteq> odd (length (filter fence_line ls)))"
  by (induction ls arbitrary: b links n) auto


text \<open>
  C3.  In a document whose lines are \<open>before\<close>, an opening fence line reached while the scan
  is outside a fence, a \<open>body\<close> without fence lines, the closing fence line, and \<open>after\<close>:
  no extracted link has the line number of a body line (nor of a fence line), whatever the
  body lines hold.  The state of the scan is one boolean: a line flips it exactly when its
  stripped form starts with three backticks, so after any lines it is the parity of the
  fence lines seen; and every document is scanned from the state \<open>outside\<close>.
\<close>

theorem fenced_lines_never_extracted:
  assumes "open_file e p = Readable content"
      and "split_nl content = before @ [opening] @ body @ [closing] @ after"
      and "\<not> fst (scan_lines (False, []) 1 before)"
      and "fence_line opening"
      and "list_all (\<lambda>l. \<not> fence_line l) body"
      and "fence_line closing"
  shows "(\<forall>l \<in> set (extract_links_from_file e p).
            \<not> (length before + 1 \<le> c_line_num l \<and> c_line_num l \<le> length before + length body + 2))
       \<and> fst (scan_lines (False, []) 1 (before @ [opening]))
       \<and> fst (scan_lines (False, []) 1 (before @ [opening] @ body))
       \<and> \<not> fst (scan_lines (False, []) 1 (before @ [opening] @ body @ [closing]))
       \<and> (\<forall>b links n line. fst (scan_lines (b, links) n [line])
              = (if startswith (strip line) [BACKTICK, BACKTICK, BACKTICK] then \<not> b else b))
       \<and> (\<forall>ls. fst (scan_lines (False, []) 1 ls) = odd (length (filter fence_line ls)))
       \<and> extract_links_from_file e p = snd (scan_lines (False, []) 1 (split_nl content))"
proof -
  obtain links0 where s0: "scan_lines (False, []) 1 before = (False, links0)"
    using assms(3) by (cases "scan_lines (False, []) 1 before") auto
  have r0: "\<forall>l \<in> set links0. c_line_num l < 1 + length before"
  proof
    fix l assume "l \<in> set links0"
    then have "l \<in> set (snd (scan_lines (False, []) 1 before))"
      unfolding s0 by simp
    from scan_lines_range [OF this] show "c_line_num l < 1 + length before"
      by simp
  qed
  have s1: "scan_lines (False, []) 1 (before @ [opening]) = (True, links0)"
    using assms(4) unfolding scan_lines_append s0 by simp
  have s2: "scan_lines (False, []) 1 (before @ [opening] @ body) = (True, links0)"
    using scan_lines_append [of False "[]" 1 "before @ [opening]" body]
    unfolding s1 scan_lines_inside [OF assms(5)] by simp
  have s3: "scan_lines (False, []) 1 (before @ [opening] @ body @ [closing]) = (False, links0)"
    using scan_lines_append [of False "[]" 1 "before @ [opening] @ body" "[closing]"] assms(6)
    unfolding s2 by simp
  have s4: "scan_lines (False, []) 1 (split_nl content)
      = scan_lines (False, links0) (length before + length body + 3) after"
  proof -
    have "scan_lines (False, []) 1 ((before @ [opening] @ body @ [closing]) @ after)
        = scan_lines (False, links0) (1 + length (before @ [opening] @ body @ [closing])) after"
      using scan_lines_append [of False "[]" 1 "before @ [opening] @ body @ [closing]" after]
      by (simp only: s3)
    moreover have "1 + length (before @ [opening] @ body @ [closing])
        = length before + length body + 3"
      by simp
    ultimately show ?thesis
      by (simp only: assms(2) append_assoc)
  qed
  have x: "extract_links_from_file e p = snd (scan_lines (False, []) 1 (split_nl content))"
    by (simp add: extract_links_from_file_def assms(1))
  have a: "\<forall>l \<in> set (extract_links_from_file e p).
            \<not> (length before + 1 \<le> c_line_num l \<and> c_line_num l \<le> length before + length body + 2)"
  proof
    fix l assume "l \<in> set (extract_links_from_file e p)"
    then have "l \<in> set (snd (scan_lines (False, links0) (length before + length body + 3) after))"
      unfolding x s4 .
    from scan_lines_range [OF this] r0
    show "\<not> (length before + 1 \<le> c_line_num l \<and> c_line_num l \<le> length before + length body + 2)"
      by auto
  qed
  have t: "\<forall>b links n line. fst (scan_lines (b, links) n [line])
              = (if startswith (strip line) [BACKTICK, BACKTICK, BACKTICK] then \<not> b else b)"
    by (simp add: fence_line_def)
  have st: "\<forall>ls. fst (scan_lines (False, []) 1 ls) = odd (length (filter fence_line ls))"
    by (simp add: scan_lines_state)
  show ?thesis
    unfolding s1 s2 s3 using a t st x by simp
qed


theorem fenced_lines_never_extracted_witness:
  "4 \<notin> c_line_num ` set (extract_links_from_file demo_env (py ''blueprint/A.md''))
   \<and> extract_links_from_file demo_env (py ''blueprint/A.md'')
       = snd (scan_lines (False, []) 1 (split_nl demo_A))"
proof -
  have o: "open_file demo_env (py ''blueprint/A.md'') = Readable demo_A"
    by (simp add: demo_env_def demo_files_def)
  have sp: "split_nl demo_A =
      [py ''## My Heading'', py ''[link](#my-heading) and [bad](#nope)'']
      @ [[BACKTICK, BACKTICK, BACKTICK]] @ [py ''# Setup [in](#fence)'']
      @ [[BACKTICK, BACKTICK, BACKTICK]] @ [py ''    [x](#y)'']"
    by (simp add: demo_A_def py_def split_nl_def)
  have b: "\<not> fst (scan_lines (False, []) 1
      [py ''## My Heading'', py ''[link](#my-heading) and [bad](#nope)''])"
    by (simp add: scan_lines_state fence_line_def string_eval)
  have f: "fence_line [BACKTICK, BACKTICK, BACKTICK]"
    by (simp add: fence_line_def string_eval)
  have m: "list_all (\<lambda>l. \<not> fence_line l) [py ''# Setup [in](#fence)'']"
    by (simp add: fence_line_def string_eval)
  show ?thesis
    using fenced_lines_never_extracted [OF o sp b f m f] by force
qed

section \<open>Targets that cannot be read\<close>

lemma validate_link_raises:
  "validate_link e s n t g = Inl err \<Longrightarrow>
     path_exists e (blueprint_path (fst (link_parts g))) = Inl err"
  by (auto simp: validate_link_def Let_def split: if_splits prod.splits sum.splits bool.splits)








section \<open>The statuses of a run\<close>

lemma validate_link_status:
  "returned_status (validate_link e s n t g) = None
   \<or> returned_status (validate_link e s n t g) = Some (py ''valid'')
   \<or> returned_status (validate_link e s n t g) = Some (py ''invalid'')
   \<or> returned_status (validate_link e s n t g) = Some (py ''missing-anchor'')"
  by (simp add: result_eval split: prod.splits sum.splits bool.splits)

lemma validate_link_not_external:
  "validate_link e s n t g = Inr r \<Longrightarrow> v_status r \<noteq> py ''external-unreachable''"
  using validate_link_status [of e s n t g] status_distinct
  by (auto simp: returned_status_def)

lemma count_result_external:
  "v_status r \<noteq> py ''external-unreachable'' \<Longrightarrow>
     external_unreachable (count_result k r) = external_unreachable k"
  by (simp add: count_result_def)

lemma validate_links_external:
  "external_unreachable (fst (fst (validate_links e f (k, rs) ls))) = external_unreachable k"
proof (induction ls arbitrary: k rs)
  case Nil
  then show ?case by simp
next
  case (Cons l ls)
  show ?case
  proof (cases "validate_link e f (c_line_num l) (c_text l) (c_target l)")
    case (Inl err)
    then show ?thesis by (simp add: Let_def)
  next
    case (Inr r)
    then show ?thesis
      using Cons.IH count_result_external [OF validate_link_not_external [OF Inr]]
      by (simp add: Let_def)
  qed
qed

lemma process_files_external:
  "external_unreachable (fst (fst (process_files e st fs))) = external_unreachable (fst st)"
proof (induction fs arbitrary: st)
  case Nil
  then show ?case by simp
next
  case (Cons f fs)
  obtain k rs where st: "st = (k, rs)" by (cases st)
  obtain st' x where v: "validate_links e f (k, rs) (extract_links_from_file e f) = (st', x)"
    by (cases "validate_links e f (k, rs) (extract_links_from_file e f)")
  have "external_unreachable (fst st') = external_unreachable k"
    using validate_links_external [of e f k rs "extract_links_from_file e f"] by (simp add: v)
  then show ?case
    using Cons.IH [of st'] by (cases x) (simp_all add: st v)
qed

text \<open>
  C10.  For every source document, line number, display text and target the status that
  \<open>validate_link\<close> returns is \<open>valid\<close>, \<open>invalid\<close> or \<open>missing-anchor\<close>, never
  \<open>external-unreachable\<close> (it returns no status only when \<^verbatim>\<open>Path.exists()\<close> raises for
  the path of the link); every target that starts with \<open>http://\<close> or \<open>https://\<close> is
  \<open>valid\<close>; so the counter of unreachable external links is zero at the end of every run,
  however the run ends.
\<close>

theorem status_never_external_unreachable:
  "(returned_status (validate_link e source_file n link_text link_target) = None
      \<or> returned_status (validate_link e source_file n link_text link_target) = Some (py ''valid'')
      \<or> returned_status (validate_link e source_file n link_text link_target) = Some (py ''invalid'')
      \<or> returned_status (validate_link e source_file n link_text link_target)
          = Some (py ''missing-anchor''))
   \<and> returned_status (validate_link e source_file n link_text link_target)
       \<noteq> Some (py ''external-unreachable'')
   \<and> (returned_status (validate_link e source_file n link_text link_target) = None
        \<longrightarrow> (\<exists>err. path_exists e (blueprint_path (fst (link_parts link_target))) = Inl err))
   \<and> (startswith link_target (py ''http://'') \<or> startswith link_target (py ''https://'')
        \<longrightarrow> returned_status (validate_link e source_file n link_text link_target)
              = Some (py ''valid''))
   \<and> external_unreachable (fst (fst (run_validation e md_files))) = 0"
proof -
  have h: "startswith link_target (py ''http://'') \<or> startswith link_target (py ''https://'')
        \<longrightarrow> returned_status (validate_link e source_file n link_text link_target)
              = Some (py ''valid'')"
    by (simp add: result_eval)
  have z: "external_unreachable (fst (fst (run_validation e md_files))) = 0"
    by (simp add: run_validation_def process_files_external)
  have x: "returned_status (validate_link e source_file n link_text link_target) = None
        \<longrightarrow> (\<exists>err. path_exists e (blueprint_path (fst (link_parts link_target))) = Inl err)"
    using validate_link_raises [of e source_file n link_text link_target]
    by (cases "validate_link e source_file n link_text link_target")
       (auto simp: returned_status_def)
  have ne: "returned_status (validate_link e source_file n link_text link_target)
       \<noteq> Some (py ''external-unreachable'')"
    using validate_link_status [of e source_file n link_text link_target] status_distinct
    by auto
  show ?thesis
    using h z x ne validate_link_status [of e source_file n link_text link_target] by blast
qed

theorem status_never_external_unreachable_witness:
  "external_unreachable
     (fst (fst (run_validation demo_env [py ''blueprint/A.md'', py ''blueprint/D.md'']))) = 0
   \<and> returned_status (validate_link demo_env (py ''blueprint/A.md'') 9 (py ''site'')
         (py ''https://example.com/a/b'')) = Some (py ''valid'')"
proof -
  have "startswith (py ''https://example.com/a/b'') (py ''https://'')"
    by (simp add: py_def)
  then show ?thesis
    using status_never_external_unreachable
      [of demo_env "py ''blueprint/A.md''" 9 "py ''site''" "py ''https://example.com/a/b''"
          "[py ''blueprint/A.md'', py ''blueprint/D.md'']"]
    by blast
qed

lemma demo_links_A:
  "extract_links_from_file demo_env (py ''blueprint/A.md'')
     = [\<lparr>c_line_num = 2, c_text = py ''link'', c_target = py ''#my-heading''\<rparr>,
        \<lparr>c_line_num = 2, c_text = py ''bad'', c_target = py ''#nope''\<rparr>,
        \<lparr>c_line_num = 6, c_text = py ''x'', c_target = py ''#y''\<rparr>]"
  by (simp add: extract_links_from_file_def fence_line_def match_link_def
      is_likely_code_snippet_def demo_eval string_eval)

lemma scan_headings_acc:
  "scan_headings acc ls =
     acc @ filter (\<lambda>h. h \<noteq> [])
             (map (\<lambda>l. rstrip (dropWhile isspace (dropWhile (\<lambda>c. c = HASH) (strip l))))
                (filter (\<lambda>l. startswith (strip l) [HASH]) ls))"
  by (induction ls arbitrary: acc) (simp_all add: Let_def strip_heading_marker_def)

section \<open>Headings inside fences\<close>

text \<open>
  C8.  The headings of a file are computed line by line with no state: every delivered line
  whose stripped form starts with \<open>#\<close> gives the text after the run of \<open>#\<close> and the
  whitespace that follows it, and empty results are dropped.  So a line inside a fenced
  block is treated like any other and can contribute an anchor: in \<open>A.md\<close> the line
  \<open># Setup [in](#fence)\<close> stands between two fence lines (its link is not extracted), it is
  a heading all the same, and the anchor \<open>setup-infence\<close> exists.
\<close>

theorem headings_scanned_unconditionally:
  "extract_headings e p =
     filter (\<lambda>h. h \<noteq> [])
       (map (\<lambda>l. rstrip (dropWhile isspace (dropWhile (\<lambda>c. c = HASH) (strip l))))
          (filter (\<lambda>l. startswith (strip l) [HASH]) (iter_lines (open_file e p))))
   \<and> (\<forall>before l after.
          iter_lines (open_file e p) = before @ [l] @ after
          \<and> startswith (strip l) [HASH]
          \<and> rstrip (dropWhile isspace (dropWhile (\<lambda>c. c = HASH) (strip l))) \<noteq> []
          \<longrightarrow> rstrip (dropWhile isspace (dropWhile (\<lambda>c. c = HASH) (strip l)))
                \<in> set (extract_headings e p))
   \<and> extract_links_from_file demo_env (py ''blueprint/A.md'')
       = [\<lparr>c_line_num = 2, c_text = py ''link'', c_target = py ''#my-heading''\<rparr>,
          \<lparr>c_line_num = 2, c_text = py ''bad'', c_target = py ''#nope''\<rparr>,
          \<lparr>c_line_num = 6, c_text = py ''x'', c_target = py ''#y''\<rparr>]
   \<and> extract_headings demo_env (py ''blueprint/A.md'')
       = [py ''My Heading'', py ''Setup [in](#fence)'']
   \<and> anchor_exists demo_env (py ''blueprint/A.md'') (py ''setup-infence'')"
proof -
  have a: "extract_headings e p =
     filter (\<lambda>h. h \<noteq> [])
       (map (\<lambda>l. rstrip (dropWhile isspace (dropWhile (\<lambda>c. c = HASH) (strip l))))
          (filter (\<lambda>l. startswith (strip l) [HASH]) (iter_lines (open_file e p))))"
    by (simp add: extract_headings_def scan_headings_acc)
  have b: "\<forall>before l after.
          iter_lines (open_file e p) = before @ [l] @ after
          \<and> startswith (strip l) [HASH]
          \<and> rstrip (dropWhile isspace (dropWhile (\<lambda>c. c = HASH) (strip l))) \<noteq> []
          \<longrightarrow> rstrip (dropWhile isspace (dropWhile (\<lambda>c. c = HASH) (strip l)))
                \<in> set (extract_headings e p)"
    unfolding a by auto
  have f: "generate_github_anchor (\<lambda>pre c post. [c]) (py ''Setup [in](#fence)'') = py ''setup-infence''"
    by (simp add: anchor_eval)
  have c: "anchor_exists demo_env (py ''blueprint/A.md'') (py ''setup-infence'')"
    unfolding anchor_exists_def demo_headings_A anchor_among_iff
    by (simp add: demo_env_def f)
  show ?thesis
    using a b c demo_links_A demo_headings_A by blast
qed


theorem headings_scanned_unconditionally_witness:
  "py ''Setup [in](#fence)'' \<in> set (extract_headings demo_env (py ''blueprint/A.md''))"
proof -
  have l: "iter_lines (open_file demo_env (py ''blueprint/A.md'')) =
      [py ''## My Heading'' @ [NL], py ''[link](#my-heading) and [bad](#nope)'' @ [NL],
       [BACKTICK, BACKTICK, BACKTICK, NL]]
      @ [py ''# Setup [in](#fence)'' @ [NL]]
      @ [[BACKTICK, BACKTICK, BACKTICK, NL], py ''    [x](#y)'']"
    by (simp add: demo_eval py_def)
  have s: "startswith (strip (py ''# Setup [in](#fence)'' @ [NL])) [HASH]"
    by (simp add: string_eval)
  have h: "rstrip (dropWhile isspace (dropWhile (\<lambda>c. c = HASH)
              (strip (py ''# Setup [in](#fence)'' @ [NL])))) = py ''Setup [in](#fence)''"
    by (simp add: string_eval)
  have n: "py ''Setup [in](#fence)'' \<noteq> []"
    by (simp add: py_def)
  show ?thesis
    using headings_scanned_unconditionally [of demo_env "py ''blueprint/A.md''"] l s h n
    by metis
qed

end
